theory Spec2Isabelle
  imports Complex_Main "HOL-Library.Word" "HOL-Library.Signed_Division" "HOL-Library.Monad_Syntax"
begin

section \<open>Data model\<close>

text \<open>
  \<^verbatim>\<open>type Decimal struct { integer *big.Int; exponent int }\<close>

  The significand is a pointer to an arbitrary-precision integer: \<open>None\<close> is the nil
  pointer of a zero-valued Decimal, \<open>Some i\<close> a big.Int holding \<open>i\<close>. The exponent is a
  Go \<open>int\<close>, 64 bits wide on the usual platforms: a \<open>64 word\<close>, read as two's complement
  by \<open>sint\<close> and compared with \<open><s\<close>; \<open>+\<close>, \<open>-\<close> and \<open>*\<close> wrap as Go's do.

  Every method returns an \<open>option\<close>: \<open>None\<close> is a run-time panic (a nil dereference or a
  slice bound out of range), \<open>Some\<close> carries the result together with the receiver (and
  the argument, where the method may write to it) as they are after the call.
  Receiver and argument are passed by value here; where a caller passes the same
  object for both, the methods below read the argument before they write the receiver,
  and the receiver returned is the state of that object. Memory is unbounded in the
  model.
\<close>

record Decimal =
  integer :: "int option"
  exponent :: "64 word"

definition ensureInitialized :: "Decimal \<Rightarrow> Decimal" where
  "ensureInitialized d = (if integer d = None then d\<lparr>integer := Some 0\<rparr> else d)"

text \<open>The number a Decimal denotes: significand times ten to the exponent (nil reads as 0).\<close>

definition significand :: "Decimal \<Rightarrow> int" where
  "significand d = (case integer d of None \<Rightarrow> 0 | Some i \<Rightarrow> i)"

definition valueOf :: "Decimal \<Rightarrow> real" where
  "valueOf d = of_int (significand d) * 10 powi sint (exponent d)"

definition Sign :: "Decimal \<Rightarrow> (int \<times> Decimal) option" where
  "Sign d = do {
     let d = ensureInitialized d;
     i \<leftarrow> integer d;
     Some (sgn i, d)
   }"

definition IsZero :: "Decimal \<Rightarrow> (bool \<times> Decimal) option" where
  "IsZero d = do {
     let d = ensureInitialized d;
     i \<leftarrow> integer d;
     Some (sgn i = 0, d)
   }"

section \<open>Strings and numbers of the standard library\<close>

definition isDigit :: "char \<Rightarrow> bool" where
  "isDigit c = (c \<in> set ''0123456789'')"

definition digitVal :: "char \<Rightarrow> nat" where
  "digitVal c = of_char c - of_char (CHR ''0'')"

definition digitChar :: "nat \<Rightarrow> char" where
  "digitChar n = ''0123456789'' ! (n mod 10)"

text \<open>The value of a string of decimal digits, most significant first; a digit is worth
  its byte less the byte \<^verbatim>\<open>'0'\<close>.\<close>

definition digitsVal :: "string \<Rightarrow> nat" where
  "digitsVal s = foldl (\<lambda>a c. 10 * a + digitVal c) 0 s"

text \<open>The decimal digits of a natural number, without leading zeros (\<open>0\<close> is \<open>''0''\<close>).\<close>

fun natDigits :: "nat \<Rightarrow> string" where
  "natDigits n = (if n < 10 then [digitChar n] else natDigits (n div 10) @ [digitChar (n mod 10)])"

declare natDigits.simps [simp del]

text \<open>\<^verbatim>\<open>big.Int.String()\<close>, and \<^verbatim>\<open>%d\<close> of \<^verbatim>\<open>fmt.Sprintf\<close>: a minus sign for
  negative numbers, then the digits.\<close>

definition itoa :: "int \<Rightarrow> string" where
  "itoa i = (if i < 0 then CHR ''-'' # natDigits (nat (- i)) else natDigits (nat i))"

text \<open>An optional sign followed by at least one digit and nothing else: the input that
  both \<^verbatim>\<open>big.Int.SetString(s, 10)\<close> and \<^verbatim>\<open>strconv.ParseInt(s, 10, 64)\<close> accept.\<close>

definition splitSign :: "string \<Rightarrow> bool \<times> string" where
  "splitSign s =
     (case s of
        [] \<Rightarrow> (False, [])
      | c # t \<Rightarrow> if c = CHR ''-'' then (True, t) else if c = CHR ''+'' then (False, t) else (False, s))"

definition signedDigits :: "string \<Rightarrow> int option" where
  "signedDigits s =
     (let (neg, ds) = splitSign s in
      if ds \<noteq> [] \<and> list_all isDigit ds
      then Some (if neg then - int (digitsVal ds) else int (digitsVal ds))
      else None)"

text \<open>\<^verbatim>\<open>new(big.Int).SetString(s, 10)\<close>: the big.Int, or nil when \<open>s\<close> is not a number.\<close>

definition big_SetString :: "string \<Rightarrow> int option" where
  "big_SetString s = signedDigits s"

text \<open>\<^verbatim>\<open>strconv.ParseInt(s, 10, 64)\<close> with the error dropped: 0 on a syntax error, the
  nearest bound of int64 when the number is out of range.\<close>

definition ParseInt :: "string \<Rightarrow> int" where
  "ParseInt s =
     (case signedDigits s of
        None \<Rightarrow> 0
      | Some v \<Rightarrow> if v < - (2 ^ 63) then - (2 ^ 63) else if 2 ^ 63 - 1 < v then 2 ^ 63 - 1 else v)"

text \<open>\<^verbatim>\<open>strings.TrimRight(s, "0")\<close>\<close>

definition TrimRight0 :: "string \<Rightarrow> string" where
  "TrimRight0 s = rev (dropWhile (\<lambda>c. c = CHR ''0'') (rev s))"

subsection \<open>The decimal pattern\<close>

text \<open>
  \<^verbatim>\<open>^([-+]?\d+)(\.(\d+))?([eE]([-+]?\d+))?$\<close>

  The pattern is anchored at both ends and every run of digits is followed by a character
  that is not a digit (or by the end), so a match, when there is one, takes each run of
  digits whole: the scanners below take the longest run. An optional group whose body
  does not match is skipped and matches the empty string; the input left over then
  fails the final \<open>$\<close>. \<open>FindStringSubmatch\<close> returns the whole match and the five
  groups (an unmatched group is the empty string), or nil (the empty list) when the
  string does not match.
\<close>

definition scanSigned :: "string \<Rightarrow> (string \<times> string) option" where
  "scanSigned s =
     (let (sg, r) = (case s of
                       [] \<Rightarrow> ([], [])
                     | c # t \<Rightarrow> if c = CHR ''-'' \<or> c = CHR ''+'' then ([c], t) else ([], s));
          ds = takeWhile isDigit r
      in if ds = [] then None else Some (sg @ ds, dropWhile isDigit r))"

definition scanFraction :: "string \<Rightarrow> string \<times> string \<times> string" where
  "scanFraction s =
     (case s of
        [] \<Rightarrow> ([], [], [])
      | c # t \<Rightarrow>
          if c = CHR ''.'' \<and> takeWhile isDigit t \<noteq> []
          then (c # takeWhile isDigit t, takeWhile isDigit t, dropWhile isDigit t)
          else ([], [], s))"

definition scanExponent :: "string \<Rightarrow> string \<times> string \<times> string" where
  "scanExponent s =
     (case s of
        [] \<Rightarrow> ([], [], [])
      | c # t \<Rightarrow>
          if c = CHR ''e'' \<or> c = CHR ''E'' then
            (case scanSigned t of
               None \<Rightarrow> ([], [], s)
             | Some (g5, r) \<Rightarrow> (c # g5, g5, r))
          else ([], [], s))"

definition FindStringSubmatch :: "string \<Rightarrow> string list" where
  "FindStringSubmatch s =
     (case scanSigned s of
        None \<Rightarrow> []
      | Some (g1, r1) \<Rightarrow>
          (let (g2, g3, r2) = scanFraction r1;
               (g4, g5, r3) = scanExponent r2
           in if r3 = [] then [s, g1, g2, g3, g4, g5] else []))"

section \<open>Construction\<close>

text \<open>
  \<open>SetString\<close> returns the receiver after the call and the success flag. The receiver's
  big.Int is not nil once \<open>ensureInitialized\<close> has run. \<^verbatim>\<open>big.Int.SetString\<close> leaves
  its receiver undefined when it fails; the model has no value for that and answers
  \<open>None\<close> there (the pattern admits no such string, see \<open>SetString_defined\<close>).
\<close>

definition SetString :: "Decimal \<Rightarrow> string \<Rightarrow> (Decimal \<times> bool) option" where
  "SetString x y = do {
     let x = ensureInitialized x;
     let matches = FindStringSubmatch y;
     if length matches \<noteq> 6 then Some (x, False)
     else do {
       let decimals = TrimRight0 (matches ! 3);
       let integer_str = (matches ! 1) @ decimals;
       let exponent0 = (of_nat (length decimals) :: 64 word) * (- 1);
       let exponent1 = (if length (matches ! 5) > 0
                        then exponent0 + word_of_int (ParseInt (matches ! 5))
                        else exponent0);
       _ \<leftarrow> integer x;
       v \<leftarrow> big_SetString integer_str;
       Some (x\<lparr>integer := Some v, exponent := exponent1\<rparr>, True)
     }
   }"

datatype error = InvalidDecimalString string

text \<open>\<open>Parse\<close> returns the new Decimal or the error; \<open>MustParse\<close> panics on the error.\<close>

definition Parse :: "string \<Rightarrow> (error + Decimal) option" where
  "Parse str = do {
     (d, ok) \<leftarrow> SetString \<lparr>integer = None, exponent = 0\<rparr> str;
     if ok then Some (Inr d) else Some (Inl (InvalidDecimalString str))
   }"

definition MustParse :: "string \<Rightarrow> Decimal option" where
  "MustParse str = do {
     r \<leftarrow> Parse str;
     case r of Inl err \<Rightarrow> None | Inr d \<Rightarrow> Some d
   }"

section \<open>Alignment and comparison\<close>

text \<open>
  \<open>align\<close> may write to either operand; it returns both. The difference of the exponents
  is computed on big integers, from the absolute values of the two exponents.
\<close>

definition align :: "Decimal \<Rightarrow> Decimal \<Rightarrow> (Decimal \<times> Decimal) option" where
  "align x y =
     (if exponent x \<noteq> exponent y then
        let diff = \<bar>\<bar>sint (exponent x)\<bar> - \<bar>sint (exponent y)\<bar>\<bar> in
        if exponent y <s exponent x then do {
          xi \<leftarrow> integer x;
          Some (x\<lparr>integer := Some (xi * 10 ^ nat diff), exponent := exponent y\<rparr>, y)
        } else do {
          yi \<leftarrow> integer y;
          Some (x, y\<lparr>integer := Some (yi * 10 ^ nat diff), exponent := exponent x\<rparr>)
        }
      else Some (x, y))"

definition big_Cmp :: "int \<Rightarrow> int \<Rightarrow> int" where
  "big_Cmp a b = (if a < b then - 1 else if a = b then 0 else 1)"

definition Cmp :: "Decimal \<Rightarrow> Decimal \<Rightarrow> (int \<times> Decimal \<times> Decimal) option" where
  "Cmp x y = do {
     let x = ensureInitialized x;
     let y = ensureInitialized y;
     (x, y) \<leftarrow> align x y;
     xi \<leftarrow> integer x;
     yi \<leftarrow> integer y;
     Some (big_Cmp xi yi, x, y)
   }"

section \<open>Arithmetic\<close>

definition Mul :: "Decimal \<Rightarrow> Decimal \<Rightarrow> (Decimal \<times> Decimal) option" where
  "Mul x y = do {
     let x = ensureInitialized x;
     let y = ensureInitialized y;
     xi \<leftarrow> integer x;
     yi \<leftarrow> integer y;
     if sgn yi = 0 then Some (x\<lparr>integer := Some 0, exponent := 0\<rparr>, y)
     else Some (x\<lparr>integer := Some (xi * yi), exponent := exponent x + exponent y\<rparr>, y)
   }"

text \<open>
  \<^verbatim>\<open>MaxDecimalDigits\<close> is a package variable that callers may reassign, so \<open>Quo\<close> takes
  its current value as an argument; \<open>MaxDecimalDigits\<close> below is the initial value.
  \<^verbatim>\<open>QuoRem\<close> of big.Int truncates towards zero: \<open>sdiv\<close> and \<open>smod\<close>.
\<close>

definition MaxDecimalDigits :: "64 word" where
  "MaxDecimalDigits = 200"

text \<open>The loop of the long division, on the remainder, the exponent and the buffer.\<close>

function quoLoop :: "64 word \<Rightarrow> int \<Rightarrow> int \<Rightarrow> 64 word \<Rightarrow> string \<Rightarrow> int \<times> 64 word \<times> string" where
  "quoLoop maxDigits yi r ex buf =
     (if sgn r \<noteq> 0 \<and> ex * (- 1) <s maxDigits then
        (let r10 = r * 10;
             z = r10 sdiv yi;
             r' = r10 smod yi
         in quoLoop maxDigits yi r' (ex - 1) (buf @ itoa z))
      else (r, ex, buf))"
  by pat_completeness auto

termination quoLoop
proof (relation "measure (\<lambda>(m, yi, r, ex, buf). nat (sint m - sint (ex * (- 1))))", goal_cases)
  case 1
  show ?case by simp
next
  case (2 m yi r ex buf r10 z r')
  then have less: "sint (- ex) < sint m"
    by (simp add: word_sless_alt)
  have "sint m < 2 ^ 63"
    using sint_lt [of m] by simp
  with less have below: "sint (- ex) < 2 ^ 63 - 1"
    by simp
  have above: "- (2 ^ 63) \<le> sint (- ex)"
    using sint_ge [of "- ex"] by simp
  have "sint (- ex + 1) = signed_take_bit 63 (sint (- ex) + 1)"
    using sint_word_add [of "- ex" 1] by simp
  also have "\<dots> = sint (- ex) + 1"
    using below above by (intro signed_take_bit_int_eq_self) simp_all
  finally have "sint (- ex + 1) = sint (- ex) + 1" .
  moreover have "(ex - 1) * (- 1) = - ex + 1"
    by simp
  ultimately show ?case
    using less by simp
qed

declare quoLoop.simps [simp del]

text \<open>
  \<open>Quo\<close> writes the digits into a buffer, formats \<^verbatim>\<open>"%se%d"\<close> with the exponent and
  reads the string back through \<open>SetString\<close>, whose success flag it drops.
\<close>

definition Quo :: "64 word \<Rightarrow> Decimal \<Rightarrow> Decimal \<Rightarrow> (Decimal \<times> Decimal) option" where
  "Quo maxDigits x y = do {
     let x = ensureInitialized x;
     let y = ensureInitialized y;
     xi \<leftarrow> integer x;
     yi \<leftarrow> integer y;
     if sgn yi = 0 then Some (x\<lparr>integer := Some 0, exponent := 0\<rparr>, y)
     else if sgn (xi smod yi) = 0
     then Some (x\<lparr>integer := Some (xi sdiv yi), exponent := exponent x - exponent y\<rparr>, y)
     else do {
       let buf = (if sgn xi * sgn yi = - 1 then [CHR ''-''] else []);
       let xa = \<bar>xi\<bar>;
       let ya = \<bar>yi\<bar>;
       let ex = exponent x - exponent y;
       let z = xa sdiv ya;
       let r = xa smod ya;
       let buf = buf @ itoa z;
       let (r, ex, buf) = quoLoop maxDigits ya r ex buf;
       let str = buf @ [CHR ''e''] @ itoa (sint ex);
       (x, ok) \<leftarrow> SetString x str;
       Some (x, y)
     }
   }"

definition Div :: "64 word \<Rightarrow> Decimal \<Rightarrow> Decimal \<Rightarrow> (Decimal \<times> Decimal) option" where
  "Div maxDigits x y = Quo maxDigits x y"

section \<open>Rounding\<close>

text \<open>
  Lengths and indices are Go \<open>int\<close>s. \<open>len\<close> is the length of a string as a 64-bit
  \<open>int\<close> (every Go string is shorter than \<open>2 ^ 63\<close> bytes); \<open>slice s lo hi\<close> is
  \<^verbatim>\<open>s[lo:hi]\<close>, which panics unless \<open>0 \<le> lo \<le> hi \<le> len(s)\<close>; \<open>Repeat0 n\<close> is
  \<^verbatim>\<open>strings.Repeat("0", n)\<close>, which panics on a negative count.
\<close>

definition len :: "string \<Rightarrow> 64 word" where
  "len s = of_nat (length s)"

definition slice :: "string \<Rightarrow> 64 word \<Rightarrow> 64 word \<Rightarrow> string option" where
  "slice s lo hi =
     (if 0 \<le> sint lo \<and> sint lo \<le> sint hi \<and> sint hi \<le> int (length s)
      then Some (take (nat (sint hi - sint lo)) (drop (nat (sint lo)) s))
      else None)"

definition Repeat0 :: "64 word \<Rightarrow> string option" where
  "Repeat0 n = (if sint n < 0 then None else Some (replicate (nat (sint n)) (CHR ''0'')))"

definition HasPrefix :: "string \<Rightarrow> string \<Rightarrow> bool" where
  "HasPrefix s p = (take (length p) s = p)"

text \<open>
  \<open>precision\<close> is a \<open>uint\<close>; \<^verbatim>\<open>int(precision)\<close> keeps the 64 bits and reads them as
  signed. \<^verbatim>\<open>new(big.Int).SetString\<close> returns nil for a string without digits; the
  nil is stored into the receiver when no unit is added, and dereferenced by
  \<^verbatim>\<open>z.Add\<close> when one is.
\<close>

definition RoundToNearestEven :: "Decimal \<Rightarrow> 64 word \<Rightarrow> Decimal option" where
  "RoundToNearestEven d precision = do {
     let d = ensureInitialized d;
     let prec = precision;
     (zero, d) \<leftarrow> IsZero d;
     if zero \<or> 0 <s exponent d \<or> exponent d * (- 1) \<le>s prec then Some d
     else do {
       di \<leftarrow> integer d;
       let str = itoa di;
       (sign, str) \<leftarrow> (if HasPrefix str [CHR ''-'']
                        then do { t \<leftarrow> slice str 1 (len str); Some ([CHR ''-''], t) }
                        else Some ([], str));
       str \<leftarrow> (if len str <s exponent d * (- 1)
                then do { zs \<leftarrow> Repeat0 (exponent d * (- 1) - len str + 1); Some (zs @ str) }
                else Some str);
       part1 \<leftarrow> slice str 0 (len str + exponent d);
       part2 \<leftarrow> slice str (len part1) (len str);
       digit \<leftarrow> slice part2 prec (prec + 1);
       isRoundUp \<leftarrow>
         (if digit = ''6'' \<or> digit = ''7'' \<or> digit = ''8'' \<or> digit = ''9'' then Some True
          else if digit = ''5'' then
            (if prec + 1 <s len part2 then Some True
             else do {
               neighbor \<leftarrow> (if prec = 0 then slice part1 (len part1 - 1) (len part1)
                             else slice part2 (prec - 1) prec);
               Some (neighbor = ''1'' \<or> neighbor = ''3'' \<or> neighbor = ''5''
                     \<or> neighbor = ''7'' \<or> neighbor = ''9'')
             })
          else Some False);
       kept \<leftarrow> slice part2 0 prec;
       let z = big_SetString (sign @ part1 @ kept);
       z \<leftarrow> (if isRoundUp then do { zi \<leftarrow> z; Some (Some (zi + sgn di)) } else Some z);
       Some (d\<lparr>integer := z, exponent := prec * (- 1)\<rparr>)
     }
   }"

definition Round :: "Decimal \<Rightarrow> 64 word \<Rightarrow> Decimal option" where
  "Round d precision = RoundToNearestEven d precision"

section \<open>Conversion from float64\<close>

text \<open>
  \<^verbatim>\<open>strconv.FormatFloat(y, 'f', -1, 64)\<close> prints the three values that are not finite
  as \<^verbatim>\<open>NaN\<close>, \<^verbatim>\<open>+Inf\<close> and \<^verbatim>\<open>-Inf\<close>. How it prints a finite value (the shortest
  digits that read back as the same float) is left as the parameter \<open>fmt\<close>.
\<close>

datatype 'f float64 = NaN | PosInf | NegInf | Finite 'f

definition FormatFloat :: "('f \<Rightarrow> string) \<Rightarrow> 'f float64 \<Rightarrow> string" where
  "FormatFloat fmt y =
     (case y of NaN \<Rightarrow> ''NaN'' | PosInf \<Rightarrow> ''+Inf'' | NegInf \<Rightarrow> ''-Inf'' | Finite v \<Rightarrow> fmt v)"

definition SetFloat64 :: "('f \<Rightarrow> string) \<Rightarrow> Decimal \<Rightarrow> 'f float64 \<Rightarrow> Decimal option" where
  "SetFloat64 fmt x y = do {
     let x = ensureInitialized x;
     (x, ok) \<leftarrow> SetString x (FormatFloat fmt y);
     Some x
   }"

definition New :: "('f \<Rightarrow> string) \<Rightarrow> 'f float64 \<Rightarrow> Decimal option" where
  "New fmt number = SetFloat64 fmt \<lparr>integer = None, exponent = 0\<rparr> number"

section \<open>Machine integers\<close>

lemma sint_succ64: "sint (w :: 64 word) < 2 ^ 63 - 1 \<Longrightarrow> sint (w + 1) = sint w + 1"
proof -
  assume below: "sint w < 2 ^ 63 - 1"
  have above: "- (2 ^ 63) \<le> sint w"
    using sint_ge [of w] by simp
  have "sint (w + 1) = signed_take_bit 63 (sint w + 1)"
    using sint_word_add [of w 1] by simp
  also have "\<dots> = sint w + 1"
    using below above by (intro signed_take_bit_int_eq_self) simp_all
  finally show ?thesis .
qed

lemma sint_pred64: "- (2 ^ 63) < sint (w :: 64 word) \<Longrightarrow> sint (w - 1) = sint w - 1"
proof -
  assume above: "- (2 ^ 63) < sint w"
  have below: "sint w < 2 ^ 63"
    using sint_lt [of w] by simp
  have "sint (w - 1) = signed_take_bit 63 (sint w - 1)"
    using sint_word_ariths(2) [of w 1] by simp
  also have "\<dots> = sint w - 1"
    using below above by (intro signed_take_bit_int_eq_self) simp_all
  finally show ?thesis .
qed

lemma sint_neg64: "- (2 ^ 63) < sint (w :: 64 word) \<Longrightarrow> sint (- w) = - sint w"
proof -
  assume above: "- (2 ^ 63) < sint w"
  have below: "sint w < 2 ^ 63"
    using sint_lt [of w] by simp
  have "sint (- w) = signed_take_bit 63 (- sint w)"
    using sint_word_ariths(4) [of w] by simp
  also have "\<dots> = - sint w"
    using below above by (intro signed_take_bit_int_eq_self) simp_all
  finally show ?thesis .
qed

lemma sint_diff64:
  "- (2 ^ 63) \<le> sint (a :: 64 word) - sint b \<Longrightarrow> sint a - sint b < 2 ^ 63 \<Longrightarrow> sint (a - b) = sint a - sint b"
proof -
  assume r: "- (2 ^ 63) \<le> sint a - sint b" "sint a - sint b < 2 ^ 63"
  have "sint (a - b) = signed_take_bit 63 (sint a - sint b)"
    using sint_word_ariths(2) [of a b] by simp
  also have "\<dots> = sint a - sint b"
    using r by (intro signed_take_bit_int_eq_self) simp_all
  finally show ?thesis .
qed

lemma sint_sum64:
  "- (2 ^ 63) \<le> sint (a :: 64 word) + sint b \<Longrightarrow> sint a + sint b < 2 ^ 63 \<Longrightarrow> sint (a + b) = sint a + sint b"
proof -
  assume r: "- (2 ^ 63) \<le> sint a + sint b" "sint a + sint b < 2 ^ 63"
  have "sint (a + b) = signed_take_bit 63 (sint a + sint b)"
    using sint_word_add [of a b] by simp
  also have "\<dots> = sint a + sint b"
    using r by (intro signed_take_bit_int_eq_self) simp_all
  finally show ?thesis .
qed

section \<open>Basic facts\<close>

lemma ensureInitialized_eq:
  "ensureInitialized d = \<lparr>integer = Some (significand d), exponent = exponent d\<rparr>"
  by (simp add: ensureInitialized_def significand_def split: option.splits)

lemma significand_ensureInitialized: "significand (ensureInitialized d) = significand d"
  by (simp add: ensureInitialized_eq significand_def)

lemma valueOf_ensureInitialized: "valueOf (ensureInitialized d) = valueOf d"
  by (simp add: ensureInitialized_eq valueOf_def significand_def)

lemma valueOf_record: "valueOf d = valueOf \<lparr>integer = Some (significand d), exponent = exponent d\<rparr>"
  by (simp add: valueOf_def significand_def)

lemma valueOf_same_exponent:
  "valueOf \<lparr>integer = Some i, exponent = e\<rparr> = valueOf \<lparr>integer = Some j, exponent = e\<rparr> \<longleftrightarrow> i = j"
  by (simp add: valueOf_def significand_def)

lemma ten_powi_add: "(10::real) powi (a + b) = 10 powi a * 10 powi b"
  by (rule power_int_add) simp

lemma ten_powi_nat: "(10::real) powi int n = 10 ^ n"
  by simp

lemma ten_powi_split: "c = a + b \<Longrightarrow> (10::real) powi a * 10 powi b = 10 powi c"
  by (simp add: ten_powi_add)

lemma valueOf_scale:
  assumes "sint e' = sint e + int n"
  shows "valueOf \<lparr>integer = Some i, exponent = e'\<rparr> = valueOf \<lparr>integer = Some (i * 10 ^ n), exponent = e\<rparr>"
proof -
  have "(10::real) powi (sint e + int n) = 10 powi sint e * 10 powi int n"
    by (rule power_int_add) simp
  then show ?thesis
    using assms by (simp add: valueOf_def significand_def)
qed

lemma valueOf_product:
  assumes "- (2 ^ 63) \<le> sint e1 + sint e2" "sint e1 + sint e2 < 2 ^ 63"
  shows "valueOf \<lparr>integer = Some (i * j), exponent = e1 + e2\<rparr>
           = valueOf \<lparr>integer = Some i, exponent = e1\<rparr> * valueOf \<lparr>integer = Some j, exponent = e2\<rparr>"
  using sint_sum64 [OF assms] by (simp add: valueOf_def significand_def ten_powi_add)

lemma dvd_of_Ints:
  assumes "(of_int a / of_int b :: real) \<in> \<int>" "b \<noteq> 0"
  shows "b dvd a"
proof -
  from assms(1) obtain n :: int where "(of_int a / of_int b :: real) = of_int n"
    by (rule Ints_cases)
  then have "(of_int a :: real) = of_int (n * b)"
    using assms(2) by (simp add: field_simps)
  then have "a = n * b"
    by (simp only: of_int_eq_iff)
  then show ?thesis by simp
qed

lemma Mul_nonzero:
  "significand y \<noteq> 0 \<Longrightarrow>
     Mul x y = Some (\<lparr>integer = Some (significand x * significand y),
                       exponent = exponent x + exponent y\<rparr>, ensureInitialized y)"
  by (simp add: Mul_def ensureInitialized_eq sgn_if)

section \<open>Digit strings\<close>

lemma below_ten:
  "(k::nat) < 10 \<Longrightarrow> k = 0 \<or> k = 1 \<or> k = 2 \<or> k = 3 \<or> k = 4 \<or> k = 5 \<or> k = 6 \<or> k = 7 \<or> k = 8 \<or> k = 9"
  by arith

lemma isDigit_digitChar: "isDigit (digitChar n)"
  using below_ten [of "n mod 10"] by (auto simp: isDigit_def digitChar_def)

lemma digitVal_digitChar: "digitVal (digitChar n) = n mod 10"
  using below_ten [of "n mod 10"] by (auto simp: digitVal_def digitChar_def)

lemma isDigit_not_sign: "isDigit c \<Longrightarrow> c \<noteq> CHR ''-'' \<and> c \<noteq> CHR ''+'' \<and> c \<noteq> CHR ''e'' \<and> c \<noteq> CHR ''E'' \<and> c \<noteq> CHR ''.''"
  by (auto simp: isDigit_def)

lemma natDigits_digits: "list_all isDigit (natDigits n)"
  by (induction n rule: natDigits.induct) (subst natDigits.simps, simp add: isDigit_digitChar)

lemma natDigits_nonempty: "natDigits n \<noteq> []"
  by (subst natDigits.simps) simp

lemma digitsVal_snoc: "digitsVal (s @ [c]) = 10 * digitsVal s + digitVal c"
  by (simp add: digitsVal_def)

lemma digitsVal_append: "digitsVal (a @ b) = digitsVal a * 10 ^ length b + digitsVal b"
proof (induction b rule: rev_induct)
  case Nil
  show ?case by (simp add: digitsVal_def)
next
  case (snoc c b)
  have "digitsVal (a @ b @ [c]) = 10 * digitsVal (a @ b) + digitVal c"
    using digitsVal_snoc [of "a @ b" c] by simp
  then show ?case
    using snoc by (simp add: digitsVal_snoc algebra_simps)
qed

lemma digitsVal_Cons: "digitsVal (c # s) = digitVal c * 10 ^ length s + digitsVal s"
  using digitsVal_append [of "[c]" s] by (simp add: digitsVal_def)

lemma digitsVal_natDigits: "digitsVal (natDigits n) = n"
proof (induction n rule: natDigits.induct)
  case (1 n)
  show ?case
  proof (cases "n < 10")
    case True
    then show ?thesis
      by (subst natDigits.simps) (simp add: digitsVal_def digitVal_digitChar)
  next
    case False
    with 1 have "digitsVal (natDigits (n div 10)) = n div 10" by simp
    with False show ?thesis
      by (subst natDigits.simps) (simp add: digitsVal_snoc digitVal_digitChar)
  qed
qed

lemma natDigits_small: "n < 10 \<Longrightarrow> natDigits n = [digitChar n]"
  by (subst natDigits.simps) simp

lemma takeWhile_digits:
  "list_all isDigit ds \<Longrightarrow> rest = [] \<or> \<not> isDigit (hd rest) \<Longrightarrow>
     takeWhile isDigit (ds @ rest) = ds \<and> dropWhile isDigit (ds @ rest) = rest"
  by (cases rest) (auto simp: list_all_iff takeWhile_append2 dropWhile_append2)

lemma itoa_shape:
  "\<exists>sg ds. itoa v = sg @ ds \<and> (sg = [] \<or> sg = [CHR ''-'']) \<and> ds \<noteq> [] \<and> list_all isDigit ds
     \<and> signedDigits (itoa v) = Some v"
proof (cases "v < 0")
  case True
  then have "itoa v = [CHR ''-''] @ natDigits (nat (- v))" by (simp add: itoa_def)
  moreover have "signedDigits (CHR ''-'' # natDigits (nat (- v))) = Some v"
    using True by (simp add: signedDigits_def splitSign_def natDigits_nonempty natDigits_digits digitsVal_natDigits)
  ultimately show ?thesis
    using natDigits_nonempty natDigits_digits by (metis append_Cons append_Nil)
next
  case False
  then have e: "itoa v = [] @ natDigits (nat v)" by (simp add: itoa_def)
  obtain c cs where ds: "natDigits (nat v) = c # cs" using natDigits_nonempty by (cases "natDigits (nat v)") auto
  have "isDigit c" using natDigits_digits [of "nat v"] ds by simp
  then have nc: "c \<noteq> CHR ''-''" "c \<noteq> CHR ''+''" using isDigit_not_sign by auto
  have "splitSign (natDigits (nat v)) = (False, natDigits (nat v))"
    using nc by (simp add: splitSign_def ds)
  then have "signedDigits (natDigits (nat v)) = Some v"
    using False by (simp add: signedDigits_def natDigits_nonempty natDigits_digits digitsVal_natDigits)
  with e show ?thesis
    using natDigits_nonempty natDigits_digits by (metis append_Nil)
qed

lemma signedDigits_digits:
  assumes "ds \<noteq> []" "list_all isDigit ds"
  shows "signedDigits ds = Some (int (digitsVal ds))"
    and "signedDigits (CHR ''-'' # ds) = Some (- int (digitsVal ds))"
proof -
  obtain c cs where ds: "ds = c # cs" using assms(1) by (cases ds) auto
  with assms(2) have c: "isDigit c" by simp
  then have nc: "c \<noteq> CHR ''-''" "c \<noteq> CHR ''+''" using isDigit_not_sign by auto
  have "splitSign ds = (False, ds)" using nc by (simp add: splitSign_def ds)
  then show "signedDigits ds = Some (int (digitsVal ds))"
    using assms by (simp add: signedDigits_def)
  show "signedDigits (CHR ''-'' # ds) = Some (- int (digitsVal ds))"
    using assms by (simp add: signedDigits_def splitSign_def)
qed

lemma signedDigits_defined:
  assumes "sg = [] \<or> sg = [CHR ''-''] \<or> sg = [CHR ''+'']" "ds \<noteq> []"
    "list_all isDigit ds" "list_all isDigit t"
  shows "\<exists>v. signedDigits (sg @ ds @ t) = Some v"
proof -
  obtain c cs where ds: "ds = c # cs"
    using assms(2) by (cases ds) auto
  with assms(3) have "isDigit c" by simp
  then have nc: "c \<noteq> CHR ''-''" "c \<noteq> CHR ''+''"
    using isDigit_not_sign by auto
  have "\<exists>neg. splitSign (sg @ ds @ t) = (neg, ds @ t)"
    using assms(1) nc by (auto simp: splitSign_def ds)
  then show ?thesis
    using assms(2,3,4) by (auto simp: signedDigits_def)
qed

lemma ParseInt_itoa: "- (2 ^ 63) \<le> v \<Longrightarrow> v < 2 ^ 63 \<Longrightarrow> ParseInt (itoa v) = v"
  using itoa_shape [of v] by (auto simp: ParseInt_def)

lemma TrimRight0_digits: "list_all isDigit s \<Longrightarrow> list_all isDigit (TrimRight0 s)"
  by (auto simp: TrimRight0_def list_all_iff dest: set_dropWhileD)

section \<open>The decimal pattern and SetString\<close>

lemma FindStringSubmatch_length: "length (FindStringSubmatch y) = 6 \<or> FindStringSubmatch y = []"
  by (simp add: FindStringSubmatch_def split: option.splits prod.splits)

lemma scanSigned_digits:
  assumes "ds \<noteq> []" "list_all isDigit ds" "rest = [] \<or> \<not> isDigit (hd rest)"
    and "sg = [] \<or> sg = [CHR ''-'']"
  shows "scanSigned (sg @ ds @ rest) = Some (sg @ ds, rest)"
proof -
  obtain c cs where ds: "ds = c # cs" using assms(1) by (cases ds) auto
  with assms(2) have c: "isDigit c" by simp
  then have nc: "c \<noteq> CHR ''-''" "c \<noteq> CHR ''+''" using isDigit_not_sign by auto
  from assms(4) show ?thesis
  proof
    assume "sg = []"
    then show ?thesis
      using takeWhile_digits [OF assms(2,3)] nc assms(1) by (simp add: scanSigned_def ds)
  next
    assume "sg = [CHR ''-'']"
    then show ?thesis
      using takeWhile_digits [OF assms(2,3)] assms(1) by (simp add: scanSigned_def)
  qed
qed

lemma scanSigned_shape:
  assumes "scanSigned s = Some (g, r)"
  shows "\<exists>sg ds. g = sg @ ds \<and> (sg = [] \<or> sg = [CHR ''-''] \<or> sg = [CHR ''+''])
           \<and> ds \<noteq> [] \<and> list_all isDigit ds"
proof (cases s)
  case Nil
  with assms show ?thesis by (simp add: scanSigned_def)
next
  case (Cons c t)
  show ?thesis
  proof (cases "c = CHR ''-'' \<or> c = CHR ''+''")
    case True
    with assms Cons have "g = [c] @ takeWhile isDigit t" "takeWhile isDigit t \<noteq> []"
      by (auto simp: scanSigned_def Let_def split: if_splits)
    moreover have "list_all isDigit (takeWhile isDigit t)"
      by (simp add: list_all_iff) (meson set_takeWhileD)
    ultimately show ?thesis
      using True by blast
  next
    case False
    with assms Cons have "g = [] @ takeWhile isDigit s" "takeWhile isDigit s \<noteq> []"
      by (auto simp: scanSigned_def Let_def split: if_splits)
    moreover have "list_all isDigit (takeWhile isDigit s)"
      by (simp add: list_all_iff) (meson set_takeWhileD)
    ultimately show ?thesis
      by blast
  qed
qed

lemma scanFraction_digits: "scanFraction s = (g2, g3, r) \<Longrightarrow> list_all isDigit g3"
  by (cases s) (auto simp: scanFraction_def list_all_iff split: if_splits dest: set_takeWhileD)

lemma FindStringSubmatch_quotient:
  assumes "ds \<noteq> []" "list_all isDigit ds" "sg = [] \<or> sg = [CHR ''-'']"
  shows "FindStringSubmatch (sg @ ds @ [CHR ''e''] @ itoa v)
           = [sg @ ds @ [CHR ''e''] @ itoa v, sg @ ds, [], [], CHR ''e'' # itoa v, itoa v]"
proof -
  have ne: "\<not> isDigit (CHR ''e'')" by (simp add: isDigit_def)
  have 1: "scanSigned (sg @ ds @ [CHR ''e''] @ itoa v) = Some (sg @ ds, [CHR ''e''] @ itoa v)"
    using scanSigned_digits [OF assms(1,2) _ assms(3), of "[CHR ''e''] @ itoa v"] ne by simp
  have 2: "scanFraction ([CHR ''e''] @ itoa v) = ([], [], [CHR ''e''] @ itoa v)"
    by (simp add: scanFraction_def)
  obtain sg' ds' where it: "itoa v = sg' @ ds'" "sg' = [] \<or> sg' = [CHR ''-'']" "ds' \<noteq> []" "list_all isDigit ds'"
    using itoa_shape [of v] by blast
  have "scanSigned (sg' @ ds' @ []) = Some (sg' @ ds', [])"
    using scanSigned_digits [OF it(3,4) _ it(2), of "[]"] by simp
  then have 3: "scanExponent ([CHR ''e''] @ itoa v) = (CHR ''e'' # itoa v, itoa v, [])"
    using it(1) by (simp add: scanExponent_def)
  show ?thesis
    using 1 2 3 by (simp add: FindStringSubmatch_def)
qed

lemma SetString_quotient:
  assumes "ds \<noteq> []" "list_all isDigit ds" "sg = [] \<or> sg = [CHR ''-'']"
  shows "SetString x (sg @ ds @ [CHR ''e''] @ itoa (sint ex))
           = Some (\<lparr>integer = Some (if sg = [] then int (digitsVal ds) else - int (digitsVal ds)),
                    exponent = ex\<rparr>, True)"
proof -
  have range: "- (2 ^ 63) \<le> sint ex" "sint ex < 2 ^ 63"
    using sint_ge [of ex] sint_lt [of ex] by simp_all
  have p: "ParseInt (itoa (sint ex)) = sint ex"
    using ParseInt_itoa [OF range] .
  have l: "0 < length (itoa (sint ex))"
    using itoa_shape [of "sint ex"] by auto
  have b: "big_SetString (sg @ ds) = Some (if sg = [] then int (digitsVal ds) else - int (digitsVal ds))"
    using assms(3) signedDigits_digits [OF assms(1,2)] by (auto simp: big_SetString_def)
  show ?thesis
    using FindStringSubmatch_quotient [OF assms, of "sint ex"] p l b
    by (simp add: SetString_def ensureInitialized_eq TrimRight0_def)
qed

text \<open>\<open>SetString\<close> never panics, and the string handed to big.Int is always a number.\<close>

lemma SetString_defined: "\<exists>r. SetString x y = Some r"
proof (cases "FindStringSubmatch y = []")
  case True
  then have "SetString x y = Some (ensureInitialized x, False)"
    by (simp add: SetString_def)
  then show ?thesis by blast
next
  case False
  then obtain g1 r1 g2 g3 r2 g4 g5 where m:
    "scanSigned y = Some (g1, r1)" "scanFraction r1 = (g2, g3, r2)"
    "FindStringSubmatch y = [y, g1, g2, g3, g4, g5]"
    by (auto simp: FindStringSubmatch_def split: option.splits prod.splits if_splits)
  from scanSigned_shape [OF m(1)] obtain sg ds where g1:
    "g1 = sg @ ds" "sg = [] \<or> sg = [CHR ''-''] \<or> sg = [CHR ''+'']" "ds \<noteq> []" "list_all isDigit ds"
    by blast
  have "list_all isDigit (TrimRight0 g3)"
    using scanFraction_digits [OF m(2)] by (rule TrimRight0_digits)
  from signedDigits_defined [OF g1(2,3,4) this]
  obtain v where "big_SetString (g1 @ TrimRight0 g3) = Some v"
    by (auto simp: big_SetString_def g1(1))
  then have "\<exists>e. SetString x y = Some (\<lparr>integer = Some v, exponent = e\<rparr>, True)"
    by (simp add: SetString_def m(3) ensureInitialized_eq Let_def)
  then show ?thesis by blast
qed

lemma Parse_defined: "\<exists>r. Parse str = Some r"
  using SetString_defined [of "\<lparr>integer = None, exponent = 0\<rparr>" str]
  by (auto simp: Parse_def)

lemma Parse_malformed:
  "Parse ''12.3.4'' = Some (Inl (InvalidDecimalString ''12.3.4''))"
  "Parse ''abc'' = Some (Inl (InvalidDecimalString ''abc''))"
  by code_simp+

lemma non_finite_no_match:
  "FindStringSubmatch ''NaN'' = []"
  "FindStringSubmatch ''+Inf'' = []"
  "FindStringSubmatch ''-Inf'' = []"
  by code_simp+

section \<open>Exponents of the same sign\<close>

text \<open>
  When the two exponents have the same sign (or one is zero) the difference of their
  absolute values is the distance between them: there \<open>align\<close> keeps both values and
  \<open>Cmp\<close> orders the operands by value.
\<close>

lemma align_same_sign:
  fixes ex ey :: "64 word"
  assumes sign: "(0 \<le> sint ex \<and> 0 \<le> sint ey) \<or> (sint ex \<le> 0 \<and> sint ey \<le> 0)"
  shows "\<exists>xi' yi' e.
      align \<lparr>integer = Some xi, exponent = ex\<rparr> \<lparr>integer = Some yi, exponent = ey\<rparr>
        = Some (\<lparr>integer = Some xi', exponent = e\<rparr>, \<lparr>integer = Some yi', exponent = e\<rparr>)
      \<and> sint e = min (sint ex) (sint ey)
      \<and> valueOf \<lparr>integer = Some xi', exponent = e\<rparr> = valueOf \<lparr>integer = Some xi, exponent = ex\<rparr>
      \<and> valueOf \<lparr>integer = Some yi', exponent = e\<rparr> = valueOf \<lparr>integer = Some yi, exponent = ey\<rparr>"
proof -
  consider "ex = ey" | "sint ey < sint ex" | "sint ex < sint ey"
    by (cases "sint ex" "sint ey" rule: linorder_cases) (simp_all add: signed_word_eqI)
  then show ?thesis
  proof cases
    case 1
    then show ?thesis
      by (intro exI [of _ xi] exI [of _ yi] exI [of _ ex]) (simp add: align_def)
  next
    case 2
    let ?n = "nat (sint ex - sint ey)"
    have diff: "\<bar>\<bar>sint ex\<bar> - \<bar>sint ey\<bar>\<bar> = sint ex - sint ey"
      using sign 2 by auto
    have ne: "ex \<noteq> ey"
      using 2 by auto
    have al: "align \<lparr>integer = Some xi, exponent = ex\<rparr> \<lparr>integer = Some yi, exponent = ey\<rparr>
        = Some (\<lparr>integer = Some (xi * 10 ^ ?n), exponent = ey\<rparr>, \<lparr>integer = Some yi, exponent = ey\<rparr>)"
      using 2 ne by (simp add: align_def word_sless_alt diff Let_def)
    have "valueOf \<lparr>integer = Some xi, exponent = ex\<rparr>
        = valueOf \<lparr>integer = Some (xi * 10 ^ ?n), exponent = ey\<rparr>"
      using 2 by (intro valueOf_scale) simp
    then show ?thesis
      using al 2 by (intro exI [of _ "xi * 10 ^ ?n"] exI [of _ yi] exI [of _ ey]) simp
  next
    case 3
    let ?n = "nat (sint ey - sint ex)"
    have diff: "\<bar>\<bar>sint ex\<bar> - \<bar>sint ey\<bar>\<bar> = sint ey - sint ex"
      using sign 3 by auto
    have ne: "ex \<noteq> ey"
      using 3 by auto
    have al: "align \<lparr>integer = Some xi, exponent = ex\<rparr> \<lparr>integer = Some yi, exponent = ey\<rparr>
        = Some (\<lparr>integer = Some xi, exponent = ex\<rparr>, \<lparr>integer = Some (yi * 10 ^ ?n), exponent = ex\<rparr>)"
      using 3 ne by (simp add: align_def word_sless_alt diff Let_def)
    have "valueOf \<lparr>integer = Some yi, exponent = ey\<rparr>
        = valueOf \<lparr>integer = Some (yi * 10 ^ ?n), exponent = ex\<rparr>"
      using 3 by (intro valueOf_scale) simp
    then show ?thesis
      using al 3 by (intro exI [of _ xi] exI [of _ "yi * 10 ^ ?n"] exI [of _ ex]) simp
  qed
qed

lemma Cmp_defined: "\<exists>c x' y'. Cmp x y = Some (c, x', y')"
  by (simp add: Cmp_def align_def ensureInitialized_eq Let_def)

lemma Cmp_same_sign:
  assumes sign: "(0 \<le> sint (exponent x) \<and> 0 \<le> sint (exponent y))
                 \<or> (sint (exponent x) \<le> 0 \<and> sint (exponent y) \<le> 0)"
  shows "\<exists>x' y'. Cmp x y = Some (if valueOf x < valueOf y then - 1
                                    else if valueOf x = valueOf y then 0 else 1, x', y')
           \<and> valueOf x' = valueOf x \<and> valueOf y' = valueOf y"
proof -
  from align_same_sign [OF sign, of "significand x" "significand y"]
  obtain xi' yi' e where al:
    "align \<lparr>integer = Some (significand x), exponent = exponent x\<rparr>
        \<lparr>integer = Some (significand y), exponent = exponent y\<rparr>
      = Some (\<lparr>integer = Some xi', exponent = e\<rparr>, \<lparr>integer = Some yi', exponent = e\<rparr>)"
    "valueOf \<lparr>integer = Some xi', exponent = e\<rparr> = valueOf x"
    "valueOf \<lparr>integer = Some yi', exponent = e\<rparr> = valueOf y"
    using valueOf_record [of x] valueOf_record [of y] by auto
  have cmp: "Cmp x y = Some (big_Cmp xi' yi', \<lparr>integer = Some xi', exponent = e\<rparr>,
      \<lparr>integer = Some yi', exponent = e\<rparr>)"
    using al(1) by (simp add: Cmp_def ensureInitialized_eq)
  have pos: "(0::real) < 10 powi sint e"
    by (simp add: power_int_def)
  have vx: "valueOf x = of_int xi' * 10 powi sint e"
    using al(2) [symmetric]
    by (simp add: valueOf_def [of "\<lparr>integer = Some xi', exponent = e\<rparr>"] significand_def)
  have vy: "valueOf y = of_int yi' * 10 powi sint e"
    using al(3) [symmetric]
    by (simp add: valueOf_def [of "\<lparr>integer = Some yi', exponent = e\<rparr>"] significand_def)
  have "valueOf x < valueOf y \<longleftrightarrow> xi' < yi'"
    unfolding vx vy using pos by simp
  moreover have "valueOf x = valueOf y \<longleftrightarrow> xi' = yi'"
    unfolding vx vy using pos by simp
  ultimately have "big_Cmp xi' yi' = (if valueOf x < valueOf y then - 1
      else if valueOf x = valueOf y then 0 else 1)"
    by (simp add: big_Cmp_def)
  with cmp al(2,3) show ?thesis
    by auto
qed

lemma Cmp_examples:
  "Parse ''-0'' = Some (Inr \<lparr>integer = Some 0, exponent = 0\<rparr>)"
  "Parse ''0'' = Some (Inr \<lparr>integer = Some 0, exponent = 0\<rparr>)"
  "Cmp \<lparr>integer = Some 0, exponent = 0\<rparr> \<lparr>integer = Some 0, exponent = 0\<rparr>
     = Some (0, \<lparr>integer = Some 0, exponent = 0\<rparr>, \<lparr>integer = Some 0, exponent = 0\<rparr>)"
  "Parse ''1.50'' = Some (Inr \<lparr>integer = Some 15, exponent = - 1\<rparr>)"
  "Parse ''1.5'' = Some (Inr \<lparr>integer = Some 15, exponent = - 1\<rparr>)"
  "Cmp \<lparr>integer = Some 15, exponent = - 1\<rparr> \<lparr>integer = Some 15, exponent = - 1\<rparr>
     = Some (0, \<lparr>integer = Some 15, exponent = - 1\<rparr>, \<lparr>integer = Some 15, exponent = - 1\<rparr>)"
  by code_simp+

section \<open>Long division\<close>

lemma long_division_step:
  assumes "0 < ya" "0 \<le> r" "r < ya"
  shows "itoa ((r * 10) sdiv ya) = [digitChar (nat ((r * 10) div ya))]"
    and "(r * 10) sdiv ya = (r * 10) div ya"
    and "(r * 10) smod ya = (r * 10) mod ya"
    and "0 \<le> (r * 10) div ya" and "(r * 10) div ya < 10"
proof -
  show d: "(r * 10) sdiv ya = (r * 10) div ya"
    using assms by (simp add: signed_divide_int_def sgn_if)
  show "(r * 10) smod ya = (r * 10) mod ya"
    using assms by (simp add: signed_modulo_int_def sgn_if)
  show nn: "0 \<le> (r * 10) div ya"
    using assms by (simp add: pos_imp_zdiv_nonneg_iff)
  have "(r * 10) div ya * ya + (r * 10) mod ya = r * 10"
    by simp
  moreover have "0 \<le> (r * 10) mod ya"
    using assms(1) by simp
  ultimately have "(r * 10) div ya * ya \<le> r * 10"
    by linarith
  also have "r * 10 < 10 * ya"
    using assms by simp
  finally show lt: "(r * 10) div ya < 10"
    using assms(1) by (simp add: mult_less_cancel_right)
  show "itoa ((r * 10) sdiv ya) = [digitChar (nat ((r * 10) div ya))]"
    using nn lt by (simp add: d itoa_def natDigits_small)
qed

text \<open>
  The loop appends \<open>k\<close> digits to the buffer and lowers the exponent by \<open>k\<close>; the digits
  are the quotient of \<open>r * 10 ^ k\<close> by the divisor, the remainder left is its remainder.
  It stops when the remainder is zero or the negated exponent has reached \<open>m\<close>, so
  the negated exponent is at most \<open>m\<close> once a digit has been appended.
\<close>

lemma quoLoop_invariant:
  assumes "0 < ya" "0 \<le> r" "r < ya"
  shows "\<exists>r' app k. quoLoop m ya r ex buf = (r', ex - of_nat k, buf @ app)
      \<and> list_all isDigit app \<and> length app = k
      \<and> 0 \<le> r' \<and> r' < ya
      \<and> int (digitsVal app) * ya + r' = r * 10 ^ k
      \<and> (r' = 0 \<or> \<not> ((ex - of_nat k) * (- 1) <s m))
      \<and> (k = 0 \<or> - sint (ex - of_nat k) \<le> sint m)
      \<and> (- (2 ^ 63) < sint ex \<longrightarrow> sint (ex - of_nat k) = sint ex - int k)"
  using assms
proof (induction m ya r ex buf rule: quoLoop.induct)
  case (1 m ya r ex buf)
  show ?case
  proof (cases "sgn r \<noteq> 0 \<and> ex * (- 1) <s m")
    case False
    then have "quoLoop m ya r ex buf = (r, ex, buf)"
      by (subst quoLoop.simps) auto
    moreover have "r = 0 \<or> \<not> (ex * (- 1) <s m)"
      using False by (auto simp: sgn_if split: if_splits)
    ultimately show ?thesis
      using 1(2-4) by (intro exI [of _ r] exI [of _ "[]"] exI [of _ "0::nat"]) (simp add: digitsVal_def)
  next
    case True
    let ?z = "(r * 10) div ya" and ?r = "(r * 10) mod ya"
    let ?c = "digitChar (nat ?z)"
    note step = long_division_step [OF 1(2,3,4)]
    have unfold: "quoLoop m ya r ex buf = quoLoop m ya ?r (ex - 1) (buf @ [?c])"
      using True step(1,2,3) by (subst quoLoop.simps) (simp add: Let_def)
    have r'': "0 \<le> (r * 10) smod ya" "(r * 10) smod ya < ya"
      using 1(2) by (simp_all add: step(3))
    note step1 = step(1) [unfolded step(2)]
    note IH = "1.IH" [OF True refl refl refl 1(2) r'', unfolded step(2,3) step1]
    from IH obtain r' app k where ih:
      "quoLoop m ya ?r (ex - 1) (buf @ [?c]) = (r', ex - 1 - of_nat k, (buf @ [?c]) @ app)"
      "list_all isDigit app" "length app = k"
      "0 \<le> r'" "r' < ya"
      "int (digitsVal app) * ya + r' = ?r * 10 ^ k"
      "r' = 0 \<or> \<not> ((ex - 1 - of_nat k) * (- 1) <s m)"
      "k = 0 \<or> - sint (ex - 1 - of_nat k) \<le> sint m"
      "- (2 ^ 63) < sint (ex - 1) \<longrightarrow> sint (ex - 1 - of_nat k) = sint (ex - 1) - int k"
      by blast
    have ex: "ex - 1 - of_nat k = ex - of_nat (Suc k)"
      by simp
    have val: "int (digitsVal (?c # app)) * ya + r' = r * 10 ^ Suc k"
    proof -
      have "int (digitsVal (?c # app)) = ?z * 10 ^ k + int (digitsVal app)"
        using step(4,5) ih(3) by (simp add: digitsVal_Cons digitVal_digitChar)
      then have "int (digitsVal (?c # app)) * ya + r' = (?z * ya) * 10 ^ k + (int (digitsVal app) * ya + r')"
        by (simp add: algebra_simps)
      also have "\<dots> = (?z * ya) * 10 ^ k + ?r * 10 ^ k"
        by (simp only: ih(6))
      also have "\<dots> = (?z * ya + ?r) * 10 ^ k"
        by (simp only: distrib_right)
      also have "\<dots> = (r * 10) * 10 ^ k"
        by simp
      finally show ?thesis by simp
    qed
    have less: "sint (- ex) < sint m"
      using True by (simp add: word_sless_alt)
    have "sint m < 2 ^ 63"
      using sint_lt [of m] by simp
    with less have below: "sint (- ex) < 2 ^ 63 - 1"
      by simp
    have neg1: "sint (- ex + 1) = sint (- ex) + 1"
      using sint_succ64 [OF below] .
    have bound: "- sint (ex - of_nat (Suc k)) \<le> sint m"
    proof (cases "k = 0")
      case True
      have "- (2 ^ 63) < sint (- ex + 1)"
        using neg1 sint_ge [of "- ex"] by simp
      then have "sint (- (- ex + 1)) = - sint (- ex + 1)"
        by (rule sint_neg64)
      moreover have "- (- ex + 1) = ex - 1"
        by simp
      ultimately have "- sint (ex - 1) = sint (- ex) + 1"
        using neg1 by simp
      then show ?thesis
        using True less by simp
    next
      case False
      then show ?thesis using ih(8) ex by simp
    qed
    have nowrap: "- (2 ^ 63) < sint ex \<longrightarrow> sint (ex - of_nat (Suc k)) = sint ex - int (Suc k)"
    proof
      assume a: "- (2 ^ 63) < sint ex"
      then have "sint (- ex) = - sint ex" by (rule sint_neg64)
      with below have "- (2 ^ 63) + 1 < sint ex" by simp
      moreover have p: "sint (ex - 1) = sint ex - 1" using a by (rule sint_pred64)
      ultimately have "- (2 ^ 63) < sint (ex - 1)" by simp
      with ih(9) p show "sint (ex - of_nat (Suc k)) = sint ex - int (Suc k)"
        using ex by simp
    qed
    have stop: "r' = 0 \<or> \<not> ((ex - of_nat (Suc k)) * (- 1) <s m)"
      using ih(7) ex by simp
    have res: "quoLoop m ya r ex buf = (r', ex - of_nat (Suc k), buf @ (?c # app))"
      using unfold ih(1) ex by simp
    have app: "list_all isDigit (?c # app)" "length (?c # app) = Suc k"
      using ih(2,3) by (simp_all add: isDigit_digitChar)
    show ?thesis
      using res app ih(4,5) val stop bound nowrap
      by (intro exI [of _ r'] exI [of _ "?c # app"] exI [of _ "Suc k"]) blast
  qed
qed

lemma Quo_inexact:
  fixes x y :: Decimal and m :: "64 word"
  defines "xa \<equiv> \<bar>significand x\<bar>" and "ya \<equiv> \<bar>significand y\<bar>"
    and "ex0 \<equiv> exponent x - exponent y"
    and "sg \<equiv> (if sgn (significand x) * sgn (significand y) = - 1 then [CHR ''-''] else [])"
  assumes y: "significand y \<noteq> 0" and inexact: "significand x smod significand y \<noteq> 0"
  shows "\<exists>r app k.
      quoLoop m ya (xa smod ya) ex0 (sg @ itoa (xa sdiv ya))
        = (r, ex0 - of_nat k, (sg @ itoa (xa sdiv ya)) @ app)
      \<and> list_all isDigit app \<and> length app = k
      \<and> 0 \<le> r \<and> r < ya
      \<and> (int (digitsVal (natDigits (nat (xa div ya)) @ app))) * ya + r = xa * 10 ^ k
      \<and> (r = 0 \<or> \<not> ((ex0 - of_nat k) * (- 1) <s m))
      \<and> (k = 0 \<or> - sint (ex0 - of_nat k) \<le> sint m)
      \<and> (- (2 ^ 63) < sint ex0 \<longrightarrow> sint (ex0 - of_nat k) = sint ex0 - int k)
      \<and> Quo m x y = Some (\<lparr>integer = Some (sgn (significand x) * sgn (significand y)
                                * int (digitsVal (natDigits (nat (xa div ya)) @ app))),
                             exponent = ex0 - of_nat k\<rparr>, ensureInitialized y)"
proof -
  have ya: "0 < ya" using y by (simp add: ya_def)
  have xa: "0 \<le> xa" by (simp add: xa_def)
  have d: "xa sdiv ya = xa div ya" "xa smod ya = xa mod ya"
    using ya xa by (simp_all add: signed_divide_int_def signed_modulo_int_def sgn_if)
  have z0: "0 \<le> xa div ya"
    using ya xa by (simp add: pos_imp_zdiv_nonneg_iff)
  have r0: "0 \<le> xa smod ya" "xa smod ya < ya"
    using ya by (simp_all add: d)
  have it: "itoa (xa sdiv ya) = natDigits (nat (xa div ya))"
    using z0 by (simp add: d itoa_def)
  from quoLoop_invariant [OF ya r0, of m ex0 "sg @ itoa (xa sdiv ya)"]
  obtain r app k where inv:
    "quoLoop m ya (xa smod ya) ex0 (sg @ itoa (xa sdiv ya))
        = (r, ex0 - of_nat k, (sg @ itoa (xa sdiv ya)) @ app)"
    "list_all isDigit app" "length app = k" "0 \<le> r" "r < ya"
    "int (digitsVal app) * ya + r = (xa smod ya) * 10 ^ k"
    "r = 0 \<or> \<not> ((ex0 - of_nat k) * (- 1) <s m)"
    "k = 0 \<or> - sint (ex0 - of_nat k) \<le> sint m"
    "- (2 ^ 63) < sint ex0 \<longrightarrow> sint (ex0 - of_nat k) = sint ex0 - int k"
    by blast
  let ?ds = "natDigits (nat (xa div ya)) @ app"
  have ds: "?ds \<noteq> []" "list_all isDigit ?ds"
    using inv(2) natDigits_nonempty natDigits_digits by simp_all
  have val: "int (digitsVal ?ds) * ya + r = xa * 10 ^ k"
  proof -
    have "int (digitsVal ?ds) = (xa div ya) * 10 ^ k + int (digitsVal app)"
      using z0 inv(3) by (simp add: digitsVal_append digitsVal_natDigits)
    then have "int (digitsVal ?ds) * ya + r = ((xa div ya) * ya) * 10 ^ k + (int (digitsVal app) * ya + r)"
      by (simp add: algebra_simps)
    also have "\<dots> = ((xa div ya) * ya) * 10 ^ k + (xa mod ya) * 10 ^ k"
      by (simp only: inv(6) d)
    also have "\<dots> = ((xa div ya) * ya + xa mod ya) * 10 ^ k"
      by (simp only: distrib_right)
    also have "\<dots> = xa * 10 ^ k"
      by simp
    finally show ?thesis .
  qed
  have sg: "sg = [] \<or> sg = [CHR ''-'']"
    by (simp add: sg_def)
  have xnz: "significand x \<noteq> 0"
    using inexact by (auto simp: signed_modulo_int_def)
  have sign: "(if sg = [] then int (digitsVal ?ds) else - int (digitsVal ?ds))
      = sgn (significand x) * sgn (significand y) * int (digitsVal ?ds)"
    using y xnz by (auto simp: sg_def sgn_if)
  have str: "SetString \<lparr>integer = Some (significand x), exponent = exponent x\<rparr>
        (((sg @ itoa (xa sdiv ya)) @ app) @ [CHR ''e''] @ itoa (sint (ex0 - of_nat k)))
      = Some (\<lparr>integer = Some (sgn (significand x) * sgn (significand y) * int (digitsVal ?ds)),
               exponent = ex0 - of_nat k\<rparr>, True)"
    using SetString_quotient [OF ds sg, of _ "ex0 - of_nat k"] sign by (simp add: it)
  have "Quo m x y = Some (\<lparr>integer = Some (sgn (significand x) * sgn (significand y) * int (digitsVal ?ds)),
               exponent = ex0 - of_nat k\<rparr>, ensureInitialized y)"
    using y inexact inv(1) str
    by (simp add: Quo_def ensureInitialized_eq Let_def sgn_if xa_def ya_def ex0_def sg_def)
  with inv(1-5,7-9) val show ?thesis
    by blast
qed

lemma Quo_defined: "\<exists>x'. Quo m x y = Some (x', ensureInitialized y)"
proof (cases "significand y = 0")
  case True
  then show ?thesis by (simp add: Quo_def ensureInitialized_eq)
next
  case y: False
  show ?thesis
  proof (cases "significand x smod significand y = 0")
    case True
    with y show ?thesis by (simp add: Quo_def ensureInitialized_eq sgn_if)
  next
    case False
    from Quo_inexact [OF y False, of m] show ?thesis by blast
  qed
qed

text \<open>
  What the loop does, for every value \<open>m\<close> of \<open>MaxDecimalDigits\<close>, when the divisor
  is not zero and the division of the significands is inexact: it returns, and so does
  \<open>Quo\<close>; it appends \<open>k\<close> digits and lowers the exponent by \<open>k\<close>; when it stops the
  remainder is zero or the negated exponent is not below \<open>m\<close>. Once a digit has been
  appended the negated exponent of the result is at most \<open>m\<close>; and when the
  difference \<open>x.exponent - y.exponent\<close> is above the least Go \<open>int\<close>, the number of
  digits appended is zero or at most \<open>m + (x.exponent - y.exponent)\<close>: the guard
  bounds the exponent, not the number of digits appended.
\<close>

lemma Quo_long_division:
  fixes x y :: Decimal and m :: "64 word"
  defines "ya \<equiv> \<bar>significand y\<bar>"
    and "r0 \<equiv> \<bar>significand x\<bar> smod \<bar>significand y\<bar>"
    and "ex0 \<equiv> exponent x - exponent y"
    and "buf0 \<equiv> (if sgn (significand x) * sgn (significand y) = - 1 then [CHR ''-''] else [])
                  @ itoa (\<bar>significand x\<bar> sdiv \<bar>significand y\<bar>)"
  assumes "significand y \<noteq> 0" and "significand x smod significand y \<noteq> 0"
  shows "\<exists>r app k x'.
      quoLoop m ya r0 ex0 buf0 = (r, ex0 - of_nat k, buf0 @ app)
      \<and> length app = k \<and> list_all isDigit app
      \<and> (r = 0 \<or> \<not> ((ex0 - of_nat k) * (- 1) <s m))
      \<and> Quo m x y = Some (x', ensureInitialized y)
      \<and> exponent x' = ex0 - of_nat k
      \<and> (k = 0 \<or> - sint (exponent x') \<le> sint m)
      \<and> (- (2 ^ 63) < sint ex0 \<longrightarrow> k = 0 \<or> int k \<le> sint m + sint ex0)"
proof -
  from Quo_inexact [OF assms(5,6), of m]
  obtain r app k where q:
    "quoLoop m ya r0 ex0 buf0 = (r, ex0 - of_nat k, buf0 @ app)"
    "list_all isDigit app" "length app = k"
    "r = 0 \<or> \<not> ((ex0 - of_nat k) * (- 1) <s m)"
    "k = 0 \<or> - sint (ex0 - of_nat k) \<le> sint m"
    "- (2 ^ 63) < sint ex0 \<longrightarrow> sint (ex0 - of_nat k) = sint ex0 - int k"
    "Quo m x y = Some (\<lparr>integer = Some (sgn (significand x) * sgn (significand y)
          * int (digitsVal (natDigits (nat (\<bar>significand x\<bar> div \<bar>significand y\<bar>)) @ app))),
        exponent = ex0 - of_nat k\<rparr>, ensureInitialized y)"
    unfolding ya_def r0_def ex0_def buf0_def by blast
  have count: "- (2 ^ 63) < sint ex0 \<longrightarrow> k = 0 \<or> int k \<le> sint m + sint ex0"
    using q(5,6) by auto
  show ?thesis
    using q(1-5,7) count
    by (intro exI [of _ r] exI [of _ app] exI [of _ k]) auto
qed

lemma Quo_long_division_example:
  "let x = \<lparr>integer = Some 1, exponent = 0\<rparr>; y = \<lparr>integer = Some 3, exponent = 0\<rparr>; m = 3;
       ya = \<bar>significand y\<bar>;
       r0 = \<bar>significand x\<bar> smod \<bar>significand y\<bar>;
       ex0 = exponent x - exponent y;
       buf0 = (if sgn (significand x) * sgn (significand y) = - 1 then [CHR ''-''] else [])
                @ itoa (\<bar>significand x\<bar> sdiv \<bar>significand y\<bar>)
   in significand y \<noteq> 0 \<and> significand x smod significand y \<noteq> 0
      \<and> (\<exists>r app k x'.
            quoLoop m ya r0 ex0 buf0 = (r, ex0 - of_nat k, buf0 @ app)
            \<and> length app = k \<and> list_all isDigit app
            \<and> (r = 0 \<or> \<not> ((ex0 - of_nat k) * (- 1) <s m))
            \<and> Quo m x y = Some (x', ensureInitialized y)
            \<and> exponent x' = ex0 - of_nat k
            \<and> (k = 0 \<or> - sint (exponent x') \<le> sint m)
            \<and> (- (2 ^ 63) < sint ex0 \<longrightarrow> k = 0 \<or> int k \<le> sint m + sint ex0))
      \<and> quoLoop m 3 1 0 ''0'' = (1, - 3, ''0333'')
      \<and> Quo m x y = Some (\<lparr>integer = Some 333, exponent = - 3\<rparr>, y)"
proof -
  have y: "significand \<lparr>integer = Some 3, exponent = 0\<rparr> \<noteq> 0"
    by (simp add: significand_def)
  have inexact: "significand \<lparr>integer = Some 1, exponent = 0\<rparr>
      smod significand \<lparr>integer = Some 3, exponent = 0\<rparr> \<noteq> 0"
    by (simp add: significand_def signed_modulo_int_def)
  have loop: "quoLoop 3 3 1 0 ''0'' = (1, - 3, ''0333'')"
    by code_simp
  have quo: "Quo 3 \<lparr>integer = Some 1, exponent = 0\<rparr> \<lparr>integer = Some 3, exponent = 0\<rparr>
       = Some (\<lparr>integer = Some 333, exponent = - 3\<rparr>, \<lparr>integer = Some 3, exponent = 0\<rparr>)"
    by code_simp
  show ?thesis
    unfolding Let_def
    using Quo_long_division [OF y inexact, of 3] y inexact loop quo by blast
qed

section \<open>The value of a quotient\<close>

lemma Quo_value_exact:
  assumes y: "significand y \<noteq> 0" and exact: "significand x smod significand y = 0"
    and range: "- (2 ^ 63) \<le> sint (exponent x) - sint (exponent y)"
      "sint (exponent x) - sint (exponent y) < 2 ^ 63"
  shows "\<exists>x'. Quo m x y = Some (x', ensureInitialized y) \<and> valueOf x' * valueOf y = valueOf x"
proof -
  let ?q = "significand x sdiv significand y"
  let ?x' = "\<lparr>integer = Some ?q, exponent = exponent x - exponent y\<rparr>"
  have quo: "Quo m x y = Some (?x', ensureInitialized y)"
    using y exact by (simp add: Quo_def ensureInitialized_eq sgn_if)
  have "?q * significand y + significand x smod significand y = significand x"
    by (rule sdiv_mult_smod_eq)
  then have sig: "?q * significand y = significand x"
    using exact by simp
  have e: "sint (exponent x - exponent y) = sint (exponent x) - sint (exponent y)"
    using range by (rule sint_diff64)
  have p: "(10::real) powi (sint (exponent x) - sint (exponent y)) * 10 powi sint (exponent y)
      = 10 powi sint (exponent x)"
    using ten_powi_add [of "sint (exponent x) - sint (exponent y)" "sint (exponent y)"] by simp
  have "valueOf ?x' * valueOf y
      = of_int (?q * significand y)
        * ((10::real) powi (sint (exponent x) - sint (exponent y)) * 10 powi sint (exponent y))"
    by (simp add: valueOf_def significand_def e)
  also have "\<dots> = valueOf x"
    by (simp only: sig p valueOf_def)
  finally show ?thesis
    using quo by blast
qed

lemma Quo_value_inexact:
  assumes y: "significand y \<noteq> 0" and inexact: "significand x smod significand y \<noteq> 0"
    and range: "- (2 ^ 63) < sint (exponent x) - sint (exponent y)"
      "sint (exponent x) - sint (exponent y) < 2 ^ 63"
    and m: "0 \<le> sint m"
    and digits: "valueOf x / valueOf y * 10 ^ nat (sint m) \<in> \<int>"
  shows "\<exists>x'. Quo m x y = Some (x', ensureInitialized y) \<and> valueOf x' * valueOf y = valueOf x"
proof -
  define sa sb where "sa = significand x" and "sb = significand y"
  define E F where "E = sint (exponent x)" and "F = sint (exponent y)"
  define ex0 where "ex0 = exponent x - exponent y"
  have e0: "sint ex0 = E - F"
    unfolding ex0_def E_def F_def using range by (intro sint_diff64) simp_all
  have low: "- (2 ^ 63) < sint ex0"
    using e0 range by (simp add: E_def F_def)
  from Quo_inexact [OF y inexact, of m]
  obtain r app k D where q:
    "0 \<le> r" "r < \<bar>sb\<bar>"
    "D * \<bar>sb\<bar> + r = \<bar>sa\<bar> * 10 ^ k"
    "r = 0 \<or> \<not> ((ex0 - of_nat k) * (- 1) <s m)"
    "- (2 ^ 63) < sint ex0 \<longrightarrow> sint (ex0 - of_nat k) = sint ex0 - int k"
    "Quo m x y = Some (\<lparr>integer = Some (sgn sa * sgn sb * D), exponent = ex0 - of_nat k\<rparr>,
        ensureInitialized y)"
    unfolding sa_def sb_def ex0_def by blast
  have e': "sint (ex0 - of_nat k) = E - F - int k"
    using q(5) low e0 by simp
  have sbnz: "sb \<noteq> 0"
    using y by (simp add: sb_def)
  have ratio: "valueOf x / valueOf y = of_int sa / of_int sb * 10 powi (E - F)"
  proof -
    have "(10::real) powi (E - F) * 10 powi F = 10 powi E"
      by (rule ten_powi_split) simp
    then show ?thesis
      using sbnz by (simp add: valueOf_def sa_def sb_def E_def F_def field_simps)
  qed
  have r0: "r = 0"
  proof (rule ccontr)
    assume "r \<noteq> 0"
    with q(4) have stop: "sint m \<le> sint (- (ex0 - of_nat k))"
      by (simp add: word_sless_alt)
    have "- (2 ^ 63) < sint (ex0 - of_nat k)"
    proof (rule ccontr)
      assume "\<not> - (2 ^ 63) < sint (ex0 - of_nat k)"
      then have least: "sint (ex0 - of_nat k) = - (2 ^ 63)"
        using sint_ge [of "ex0 - of_nat k"] by simp
      have "sint (- (ex0 - of_nat k)) = signed_take_bit 63 (- sint (ex0 - of_nat k))"
        using sint_word_ariths(4) [of "ex0 - of_nat k"] by simp
      also have "\<dots> = - (2 ^ 63)"
        by (simp add: least signed_take_bit_eq_take_bit_shift take_bit_eq_mod)
      finally show False
        using stop m by simp
    qed
    then have "sint (- (ex0 - of_nat k)) = - sint (ex0 - of_nat k)"
      by (rule sint_neg64)
    with stop e' have J: "sint m \<le> int k - (E - F)"
      by simp
    define J where "J = nat (int k - (E - F) - sint m)"
    have "(10::real) ^ J \<in> \<int>"
      by simp
    with digits have "valueOf x / valueOf y * 10 ^ nat (sint m) * 10 ^ J \<in> \<int>"
      by (rule Ints_mult)
    moreover have "valueOf x / valueOf y * 10 ^ nat (sint m) * 10 ^ J
        = of_int (sa * 10 ^ k) / of_int sb"
    proof -
      have "(10::real) ^ nat (sint m) * 10 ^ J
          = 10 powi sint m * 10 powi (int k - (E - F) - sint m)"
        using J m by (simp add: J_def flip: ten_powi_nat)
      also have "\<dots> = 10 powi (int k - (E - F))"
        by (rule ten_powi_split) simp
      finally have "(10::real) ^ nat (sint m) * 10 ^ J = 10 powi (int k - (E - F))" .
      moreover have "(10::real) powi (E - F) * 10 powi (int k - (E - F)) = 10 powi int k"
        by (rule ten_powi_split) simp
      ultimately have "(10::real) powi (E - F) * (10 ^ nat (sint m) * 10 ^ J) = 10 ^ k"
        by (simp only: ten_powi_nat)
      then have "valueOf x / valueOf y * 10 ^ nat (sint m) * 10 ^ J
          = of_int sa / of_int sb * 10 ^ k"
        by (simp add: ratio mult.assoc)
      then show ?thesis by simp
    qed
    ultimately have "(of_int (sa * 10 ^ k) / of_int sb :: real) \<in> \<int>"
      by simp
    then have "sb dvd sa * 10 ^ k"
      using sbnz by (rule dvd_of_Ints)
    then have "\<bar>sb\<bar> dvd \<bar>sa * 10 ^ k\<bar>"
      by simp
    moreover have "\<bar>sa * 10 ^ k\<bar> = \<bar>sa\<bar> * 10 ^ k"
      by (simp add: abs_mult)
    ultimately have "\<bar>sb\<bar> dvd \<bar>sa\<bar> * 10 ^ k"
      by simp
    with q(3) have "\<bar>sb\<bar> dvd D * \<bar>sb\<bar> + r"
      by simp
    then have "\<bar>sb\<bar> dvd r"
      by (simp add: dvd_add_right_iff)
    with q(1,2) \<open>r \<noteq> 0\<close> show False
      using zdvd_not_zless [of r "\<bar>sb\<bar>"] by simp
  qed
  let ?x' = "\<lparr>integer = Some (sgn sa * sgn sb * D), exponent = ex0 - of_nat k\<rparr>"
  have sig: "sgn sa * sgn sb * D * sb = sa * 10 ^ k"
  proof -
    have b: "sgn sb * sb = \<bar>sb\<bar>" and a: "sgn sa * \<bar>sa\<bar> = sa"
      by (simp_all add: abs_sgn sgn_if)
    have "sgn sa * sgn sb * D * sb = sgn sa * (D * (sgn sb * sb))"
      by (simp only: ac_simps)
    also have "\<dots> = sgn sa * (\<bar>sa\<bar> * 10 ^ k)"
      using q(3) r0 by (simp only: b) simp
    also have "\<dots> = (sgn sa * \<bar>sa\<bar>) * 10 ^ k"
      by (simp only: mult.assoc)
    finally show ?thesis
      by (simp only: a)
  qed
  have p: "(10::real) ^ k * (10 powi (E - F - int k) * 10 powi F) = 10 powi E"
  proof -
    have "(10::real) powi (E - F - int k) * 10 powi F = 10 powi (E - int k)"
      by (rule ten_powi_split) simp
    moreover have "(10::real) powi int k * 10 powi (E - int k) = 10 powi E"
      by (rule ten_powi_split) simp
    ultimately show ?thesis
      by (simp only: ten_powi_nat)
  qed
  have "valueOf ?x' * valueOf y
      = of_int (sgn sa * sgn sb * D * sb) * ((10::real) powi (E - F - int k) * 10 powi F)"
    by (simp add: valueOf_def significand_def e' sb_def F_def)
  also have "\<dots> = of_int sa * (10 ^ k * (10 powi (E - F - int k) * 10 powi F))"
    by (simp only: sig) simp
  also have "\<dots> = valueOf x"
    by (simp only: p) (simp add: valueOf_def sa_def E_def)
  finally show ?thesis
    using q(6) by blast
qed

section \<open>Rounding: examples\<close>

lemma RoundToNearestEven_examples:
  "RoundToNearestEven \<lparr>integer = Some 35, exponent = - 1\<rparr> 0 = Some \<lparr>integer = Some 4, exponent = 0\<rparr>"
  "RoundToNearestEven \<lparr>integer = Some 26, exponent = - 1\<rparr> 0 = Some \<lparr>integer = Some 3, exponent = 0\<rparr>"
  "RoundToNearestEven \<lparr>integer = Some 251, exponent = - 2\<rparr> 0 = Some \<lparr>integer = Some 3, exponent = 0\<rparr>"
  "RoundToNearestEven \<lparr>integer = Some (- 2567), exponent = - 3\<rparr> 2 = Some \<lparr>integer = Some (- 257), exponent = - 2\<rparr>"
  "RoundToNearestEven \<lparr>integer = Some 6, exponent = - 1\<rparr> 0 = None"
  "RoundToNearestEven \<lparr>integer = Some 4, exponent = - 1\<rparr> 0 = Some \<lparr>integer = None, exponent = 0\<rparr>"
  "RoundToNearestEven \<lparr>integer = Some 5, exponent = 0\<rparr> (- 1) = None"
  by code_simp+

section \<open>The properties of the specification\<close>

subsection \<open>C1 and C2: alignment and comparison\<close>

text \<open>
  C1. \<open>align\<close> is to multiply the significand of the operand with the larger exponent
  by ten to the difference of the exponents, so that both operands keep their value.
  The code takes the difference of the absolute values of the exponents instead. With
  \<open>x = 1e1\<close> (ten) and \<open>y = 1e-1\<close> (a tenth) that difference is 0: the significand of
  \<open>x\<close> is multiplied by 1, not by 100, its exponent becomes -1, and \<open>x\<close> is a tenth.
\<close>

theorem align_mixed_sign_exponents:
  "align \<lparr>integer = Some 1, exponent = 1\<rparr> \<lparr>integer = Some 1, exponent = - 1\<rparr>
     = Some (\<lparr>integer = Some 1, exponent = - 1\<rparr>, \<lparr>integer = Some 1, exponent = - 1\<rparr>)
   \<and> valueOf \<lparr>integer = Some 1, exponent = 1\<rparr> = 10
   \<and> valueOf \<lparr>integer = Some 1, exponent = - 1\<rparr> = 1 / 10"
  by (simp add: align_def valueOf_def significand_def word_sless_alt)

text \<open>
  C2. \<open>Cmp\<close> is to order two Decimals by their numeric values. On \<open>Parse("1e1")\<close> and
  \<open>Parse("0.1")\<close>, ten and a tenth, it returns 0: the misaligned significands are both 1.
\<close>

theorem Cmp_ten_and_a_tenth:
  "Parse ''1e1'' = Some (Inr \<lparr>integer = Some 1, exponent = 1\<rparr>)
   \<and> Parse ''0.1'' = Some (Inr \<lparr>integer = Some 1, exponent = - 1\<rparr>)
   \<and> Cmp \<lparr>integer = Some 1, exponent = 1\<rparr> \<lparr>integer = Some 1, exponent = - 1\<rparr>
       = Some (0, \<lparr>integer = Some 1, exponent = - 1\<rparr>, \<lparr>integer = Some 1, exponent = - 1\<rparr>)
   \<and> valueOf \<lparr>integer = Some 1, exponent = 1\<rparr> = 10
   \<and> valueOf \<lparr>integer = Some 1, exponent = - 1\<rparr> = 1 / 10"
proof -
  have ten: "Parse ''1e1'' = Some (Inr \<lparr>integer = Some 1, exponent = 1\<rparr>)"
    by code_simp
  have tenth: "Parse ''0.1'' = Some (Inr \<lparr>integer = Some 1, exponent = - 1\<rparr>)"
    by code_simp
  have cmp: "Cmp \<lparr>integer = Some 1, exponent = 1\<rparr> \<lparr>integer = Some 1, exponent = - 1\<rparr>
       = Some (0, \<lparr>integer = Some 1, exponent = - 1\<rparr>, \<lparr>integer = Some 1, exponent = - 1\<rparr>)"
    by (simp add: Cmp_def align_def ensureInitialized_def big_Cmp_def word_sless_alt Let_def)
  have vals: "valueOf \<lparr>integer = Some 1, exponent = 1\<rparr> = 10"
    "valueOf \<lparr>integer = Some 1, exponent = - 1\<rparr> = 1 / 10"
    by (simp_all add: valueOf_def significand_def)
  from ten tenth cmp vals show ?thesis by blast
qed

subsection \<open>C3: multiplication\<close>



subsection \<open>C4 and C5: rounding to nearest, ties to even\<close>

text \<open>
  C4. A 5 followed only by zeros is a tie and is to go to the even neighbour. The code
  rounds up whenever any digit follows the 5, zero or not: \<open>250e-2\<close>, which is 2.5,
  rounds to 3 at precision 0, while \<open>Parse("2.5")\<close>, the same number, rounds to 2.
\<close>

theorem RoundToNearestEven_trailing_zero:
  "Parse ''250e-2'' = Some (Inr \<lparr>integer = Some 250, exponent = - 2\<rparr>)
   \<and> valueOf \<lparr>integer = Some 250, exponent = - 2\<rparr> = 5 / 2
   \<and> RoundToNearestEven \<lparr>integer = Some 250, exponent = - 2\<rparr> 0
       = Some \<lparr>integer = Some 3, exponent = 0\<rparr>
   \<and> RoundToNearestEven \<lparr>integer = Some 25, exponent = - 1\<rparr> 0
       = Some \<lparr>integer = Some 2, exponent = 0\<rparr>"
proof -
  have parsed: "Parse ''250e-2'' = Some (Inr \<lparr>integer = Some 250, exponent = - 2\<rparr>)"
    by code_simp
  have val: "valueOf \<lparr>integer = Some 250, exponent = - 2\<rparr> = 5 / 2"
    by (simp add: valueOf_def significand_def)
  have up: "RoundToNearestEven \<lparr>integer = Some 250, exponent = - 2\<rparr> 0
      = Some \<lparr>integer = Some 3, exponent = 0\<rparr>"
    by code_simp
  have even: "RoundToNearestEven \<lparr>integer = Some 25, exponent = - 1\<rparr> 0
      = Some \<lparr>integer = Some 2, exponent = 0\<rparr>"
    by code_simp
  from parsed val up even show ?thesis by blast
qed

text \<open>
  C5. No operation is to panic. \<open>Parse("0.5").RoundToNearestEven(0)\<close> does: the digit
  string \<open>5\<close> is as long as the exponent is deep, so it is not padded, the integer part
  is the empty string, and the neighbour of the tie is read from
  \<^verbatim>\<open>part1[len(part1)-1:]\<close>, a slice from -1.
\<close>

theorem RoundToNearestEven_half_panics:
  "Parse ''0.5'' = Some (Inr \<lparr>integer = Some 5, exponent = - 1\<rparr>)
   \<and> RoundToNearestEven \<lparr>integer = Some 5, exponent = - 1\<rparr> 0 = None"
proof -
  have parsed: "Parse ''0.5'' = Some (Inr \<lparr>integer = Some 5, exponent = - 1\<rparr>)"
    by code_simp
  have panic: "RoundToNearestEven \<lparr>integer = Some 5, exponent = - 1\<rparr> 0 = None"
    by code_simp
  from parsed panic show ?thesis by blast
qed

subsection \<open>C6: division by zero\<close>

text \<open>
  C6. When the significand of \<open>y\<close> is zero (a nil significand reads as zero), \<open>x.Quo(y)\<close>
  and \<open>x.Div(y)\<close> set \<open>x\<close> to zero with exponent 0 and return without a panic,
  whatever \<open>MaxDecimalDigits\<close> holds.
\<close>

theorem Quo_zero_divisor:
  "significand y = 0 \<Longrightarrow>
     Quo m x y = Some (\<lparr>integer = Some 0, exponent = 0\<rparr>, ensureInitialized y)
     \<and> Div m x y = Some (\<lparr>integer = Some 0, exponent = 0\<rparr>, ensureInitialized y)"
  by (simp add: Div_def Quo_def ensureInitialized_eq)

theorem Quo_zero_divisor_witness:
  "significand \<lparr>integer = Some 0, exponent = 7\<rparr> = 0
   \<and> Quo MaxDecimalDigits \<lparr>integer = Some 1, exponent = - 199\<rparr> \<lparr>integer = Some 0, exponent = 7\<rparr>
       = Some (\<lparr>integer = Some 0, exponent = 0\<rparr>, \<lparr>integer = Some 0, exponent = 7\<rparr>)"
  using Quo_zero_divisor [of "\<lparr>integer = Some 0, exponent = 7\<rparr>" MaxDecimalDigits
      "\<lparr>integer = Some 1, exponent = - 199\<rparr>"]
  by (simp add: significand_def ensureInitialized_def)

subsection \<open>C7: the length of the long division\<close>

text \<open>
  C7. The quotient of an inexact division is to have at most \<open>MaxDecimalDigits\<close>
  digits after the decimal point; the comment on \<open>MaxDecimalDigits\<close> says that what
  exceeds it is truncated. With \<open>x = 10e-300\<close> and \<open>y = 3\<close> the exponent starts at
  -300, past the limit at its initial value 200: the loop guard is false at once,
  nothing is appended and nothing is truncated although the remainder is 1, and the
  quotient \<open>3e-300\<close> has 300 digits after the decimal point.
\<close>

theorem Quo_deep_exponent_not_truncated:
  "Quo MaxDecimalDigits \<lparr>integer = Some 10, exponent = - 300\<rparr> \<lparr>integer = Some 3, exponent = 0\<rparr>
     = Some (\<lparr>integer = Some 3, exponent = - 300\<rparr>, \<lparr>integer = Some 3, exponent = 0\<rparr>)
   \<and> quoLoop MaxDecimalDigits 3 1 (- 300) ''3'' = (1, - 300, ''3'')
   \<and> sint MaxDecimalDigits = 200
   \<and> sint (exponent \<lparr>integer = Some 3, exponent = - 300\<rparr>) = - 300"
proof -
  have quo: "Quo MaxDecimalDigits \<lparr>integer = Some 10, exponent = - 300\<rparr> \<lparr>integer = Some 3, exponent = 0\<rparr>
     = Some (\<lparr>integer = Some 3, exponent = - 300\<rparr>, \<lparr>integer = Some 3, exponent = 0\<rparr>)"
    by code_simp
  have loop: "quoLoop MaxDecimalDigits 3 1 (- 300) ''3'' = (1, - 300, ''3'')"
    by code_simp
  have "sint MaxDecimalDigits = 200" "sint (exponent \<lparr>integer = Some 3, exponent = - 300\<rparr>) = - 300"
    by (simp_all add: MaxDecimalDigits_def)
  with quo loop show ?thesis by blast
qed

subsection \<open>C8: exact division round trip\<close>

text \<open>
  C8, as stated, fails where the quotient needs more digits than \<open>MaxDecimalDigits\<close>
  allows. With \<open>q = 25e-201\<close> and \<open>b = 4\<close> the product is \<open>100e-201\<close>, which is the
  number \<open>a = 1e-199\<close>, also by \<open>Cmp\<close>; but \<open>a.Quo(b)\<close> stops at exponent -200 and
  is \<open>2e-200\<close>, which \<open>Cmp\<close> finds less than \<open>q\<close>.
\<close>

theorem Quo_truncated_round_trip:
  "Mul \<lparr>integer = Some 25, exponent = - 201\<rparr> \<lparr>integer = Some 4, exponent = 0\<rparr>
     = Some (\<lparr>integer = Some 100, exponent = - 201\<rparr>, \<lparr>integer = Some 4, exponent = 0\<rparr>)
   \<and> valueOf \<lparr>integer = Some 1, exponent = - 199\<rparr> = valueOf \<lparr>integer = Some 100, exponent = - 201\<rparr>
   \<and> Cmp \<lparr>integer = Some 1, exponent = - 199\<rparr> \<lparr>integer = Some 100, exponent = - 201\<rparr>
       = Some (0, \<lparr>integer = Some 100, exponent = - 201\<rparr>, \<lparr>integer = Some 100, exponent = - 201\<rparr>)
   \<and> Quo MaxDecimalDigits \<lparr>integer = Some 1, exponent = - 199\<rparr> \<lparr>integer = Some 4, exponent = 0\<rparr>
       = Some (\<lparr>integer = Some 2, exponent = - 200\<rparr>, \<lparr>integer = Some 4, exponent = 0\<rparr>)
   \<and> Cmp \<lparr>integer = Some 2, exponent = - 200\<rparr> \<lparr>integer = Some 25, exponent = - 201\<rparr>
       = Some (- 1, \<lparr>integer = Some 20, exponent = - 201\<rparr>, \<lparr>integer = Some 25, exponent = - 201\<rparr>)
   \<and> valueOf \<lparr>integer = Some 2, exponent = - 200\<rparr> \<noteq> valueOf \<lparr>integer = Some 25, exponent = - 201\<rparr>"
proof -
  have mul: "Mul \<lparr>integer = Some 25, exponent = - 201\<rparr> \<lparr>integer = Some 4, exponent = 0\<rparr>
     = Some (\<lparr>integer = Some 100, exponent = - 201\<rparr>, \<lparr>integer = Some 4, exponent = 0\<rparr>)"
    by code_simp
  have same: "valueOf \<lparr>integer = Some 1, exponent = - 199\<rparr> = valueOf \<lparr>integer = Some 100, exponent = - 201\<rparr>"
    using valueOf_scale [of "- 199" "- 201" 2 1] by simp
  have cmp_product: "Cmp \<lparr>integer = Some 1, exponent = - 199\<rparr> \<lparr>integer = Some 100, exponent = - 201\<rparr>
       = Some (0, \<lparr>integer = Some 100, exponent = - 201\<rparr>, \<lparr>integer = Some 100, exponent = - 201\<rparr>)"
    by code_simp
  have quo: "Quo MaxDecimalDigits \<lparr>integer = Some 1, exponent = - 199\<rparr> \<lparr>integer = Some 4, exponent = 0\<rparr>
       = Some (\<lparr>integer = Some 2, exponent = - 200\<rparr>, \<lparr>integer = Some 4, exponent = 0\<rparr>)"
    by code_simp
  have cmp_quotient: "Cmp \<lparr>integer = Some 2, exponent = - 200\<rparr> \<lparr>integer = Some 25, exponent = - 201\<rparr>
       = Some (- 1, \<lparr>integer = Some 20, exponent = - 201\<rparr>, \<lparr>integer = Some 25, exponent = - 201\<rparr>)"
    by code_simp
  have differ: "valueOf \<lparr>integer = Some 2, exponent = - 200\<rparr> \<noteq> valueOf \<lparr>integer = Some 25, exponent = - 201\<rparr>"
    using valueOf_scale [of "- 200" "- 201" 1 2] valueOf_same_exponent [of 20 "- 201" 25] by simp
  from mul same cmp_product quo cmp_quotient differ show ?thesis
    by blast
qed

text \<open>
  C8, amended. Let \<open>b\<close> be nonzero, \<open>p\<close> the result of \<open>q.Mul(b)\<close> (with \<open>q\<close> as it was
  before the call) and \<open>a\<close> denote the same number as \<open>p\<close>. If \<open>q\<close> has at most
  \<open>MaxDecimalDigits\<close> digits after the decimal point (\<open>q\<close> times ten to that power is
  an integer) and the exponents \<open>q.exponent + b.exponent\<close> and
  \<open>a.exponent - b.exponent\<close> stay within the range of a Go \<open>int\<close>, then \<open>a.Quo(b)\<close>
  returns, and its result denotes the same number as \<open>q\<close>.
\<close>

theorem Quo_exact_round_trip:
  assumes b: "significand b \<noteq> 0"
    and prod: "Mul q b = Some (p, b')" and eq: "valueOf a = valueOf p"
    and pr: "- (2 ^ 63) \<le> sint (exponent q) + sint (exponent b)"
      "sint (exponent q) + sint (exponent b) < 2 ^ 63"
    and qr: "- (2 ^ 63) < sint (exponent a) - sint (exponent b)"
      "sint (exponent a) - sint (exponent b) < 2 ^ 63"
    and m: "0 \<le> sint m" and digits: "valueOf q * 10 ^ nat (sint m) \<in> \<int>"
  shows "\<exists>a'. Quo m a b = Some (a', ensureInitialized b) \<and> valueOf a' = valueOf q"
proof -
  have "p = \<lparr>integer = Some (significand q * significand b), exponent = exponent q + exponent b\<rparr>"
    using prod Mul_nonzero [OF b, of q] by simp
  then have "valueOf p = valueOf \<lparr>integer = Some (significand q), exponent = exponent q\<rparr>
      * valueOf \<lparr>integer = Some (significand b), exponent = exponent b\<rparr>"
    using valueOf_product [OF pr] by simp
  then have product: "valueOf a = valueOf q * valueOf b"
    using eq valueOf_record [of q] valueOf_record [of b] by simp
  have bnz: "valueOf b \<noteq> 0"
    using b by (simp add: valueOf_def)
  have ratio: "valueOf a / valueOf b = valueOf q"
    using product bnz by simp
  have "\<exists>a'. Quo m a b = Some (a', ensureInitialized b) \<and> valueOf a' * valueOf b = valueOf a"
  proof (cases "significand a smod significand b = 0")
    case True
    with b show ?thesis
      using qr by (intro Quo_value_exact) simp_all
  next
    case False
    with b show ?thesis
      using qr m digits by (intro Quo_value_inexact) (simp_all add: ratio)
  qed
  then obtain a' where "Quo m a b = Some (a', ensureInitialized b)"
    "valueOf a' * valueOf b = valueOf q * valueOf b"
    using product by auto
  then show ?thesis
    using bnz by auto
qed

theorem Quo_exact_round_trip_witness:
  "let a = \<lparr>integer = Some 1, exponent = 0\<rparr>; b = \<lparr>integer = Some 4, exponent = 0\<rparr>;
       q = \<lparr>integer = Some 25, exponent = - 2\<rparr>; p = \<lparr>integer = Some 100, exponent = - 2\<rparr>;
       m = MaxDecimalDigits
   in significand b \<noteq> 0 \<and> Mul q b = Some (p, b) \<and> valueOf a = valueOf p
      \<and> - (2 ^ 63) \<le> sint (exponent q) + sint (exponent b)
      \<and> sint (exponent q) + sint (exponent b) < 2 ^ 63
      \<and> - (2 ^ 63) < sint (exponent a) - sint (exponent b)
      \<and> sint (exponent a) - sint (exponent b) < 2 ^ 63
      \<and> 0 \<le> sint m \<and> valueOf q * 10 ^ nat (sint m) \<in> \<int>
      \<and> (\<exists>a'. Quo m a b = Some (a', ensureInitialized b) \<and> valueOf a' = valueOf q)
      \<and> Quo m a b = Some (q, b)"
proof -
  let ?a = "\<lparr>integer = Some 1, exponent = 0\<rparr>" and ?b = "\<lparr>integer = Some 4, exponent = 0\<rparr>"
  let ?q = "\<lparr>integer = Some 25, exponent = - 2\<rparr>" and ?p = "\<lparr>integer = Some 100, exponent = - 2\<rparr>"
  have b: "significand ?b \<noteq> 0"
    by (simp add: significand_def)
  have prod: "Mul ?q ?b = Some (?p, ?b)"
    by code_simp
  have eq: "valueOf ?a = valueOf ?p"
    using valueOf_scale [of 0 "- 2" 2 1] by simp
  have pr: "- (2 ^ 63) \<le> sint (exponent ?q) + sint (exponent ?b)"
    "sint (exponent ?q) + sint (exponent ?b) < 2 ^ 63"
    by simp_all
  have qr: "- (2 ^ 63) < sint (exponent ?a) - sint (exponent ?b)"
    "sint (exponent ?a) - sint (exponent ?b) < 2 ^ 63"
    by simp_all
  have m: "0 \<le> sint MaxDecimalDigits"
    by (simp add: MaxDecimalDigits_def)
  have digits: "valueOf ?q * 10 ^ nat (sint MaxDecimalDigits) \<in> \<int>"
  proof -
    have "(10::real) powi (- 2) * 10 powi int 200 = 10 powi int 198"
      by (rule ten_powi_split) simp
    then have "(10::real) powi (- 2) * 10 ^ 200 = 10 ^ 198"
      by (simp only: ten_powi_nat)
    then have "valueOf ?q * 10 ^ nat (sint MaxDecimalDigits) = of_int (25 * 10 ^ 198)"
      by (simp add: valueOf_def significand_def MaxDecimalDigits_def)
    then show ?thesis
      by (simp only: Ints_of_int)
  qed
  have quo: "Quo MaxDecimalDigits ?a ?b = Some (?q, ?b)"
    by code_simp
  show ?thesis
    unfolding Let_def
    using Quo_exact_round_trip [OF b prod eq pr qr m digits] b prod eq pr qr m digits quo
    by blast
qed

subsection \<open>C9: a failed SetString\<close>

text \<open>
  C9. When \<open>x.SetString(y)\<close> reports failure, \<open>x\<close> is what it was before the call, apart
  from the initialisation of a nil significand to zero: significand and exponent are
  unchanged.
\<close>

theorem SetString_failure_keeps_receiver:
  "SetString x y = Some (x', False) \<Longrightarrow>
     x' = ensureInitialized x \<and> significand x' = significand x \<and> exponent x' = exponent x"
  by (auto simp: SetString_def Let_def ensureInitialized_eq significand_def
      split: if_splits option.splits Option.bind_splits)

theorem SetString_failure_keeps_receiver_witness:
  "SetString \<lparr>integer = Some 42, exponent = - 3\<rparr> ''12.3.4''
     = Some (\<lparr>integer = Some 42, exponent = - 3\<rparr>, False)
   \<and> \<lparr>integer = Some 42, exponent = - 3\<rparr> = ensureInitialized \<lparr>integer = Some 42, exponent = - 3\<rparr>"
proof -
  have failure: "SetString \<lparr>integer = Some 42, exponent = - 3\<rparr> ''12.3.4''
      = Some (\<lparr>integer = Some 42, exponent = - 3\<rparr>, False)"
    by code_simp
  from SetString_failure_keeps_receiver [OF failure] failure show ?thesis
    by simp
qed

subsection \<open>C10: floats that are not finite\<close>

text \<open>
  C10. For a float64 that is NaN or an infinity, \<open>SetFloat64\<close> drops the failure of
  \<open>SetString\<close> and leaves the receiver as it was (a nil significand initialised);
  \<open>New\<close> returns zero with exponent 0, without a panic.
\<close>

theorem New_non_finite:
  "y = NaN \<or> y = PosInf \<or> y = NegInf \<Longrightarrow>
     SetFloat64 fmt x y = Some (ensureInitialized x)
     \<and> New fmt y = Some \<lparr>integer = Some 0, exponent = 0\<rparr>
     \<and> valueOf \<lparr>integer = Some 0, exponent = 0\<rparr> = 0"
  by (auto simp: New_def SetFloat64_def SetString_def FormatFloat_def non_finite_no_match
      ensureInitialized_def valueOf_def significand_def)

theorem New_non_finite_witness:
  "SetFloat64 (\<lambda>v :: unit. ''1.5'') \<lparr>integer = Some 42, exponent = - 3\<rparr> NegInf
     = Some \<lparr>integer = Some 42, exponent = - 3\<rparr>
   \<and> New (\<lambda>v :: unit. ''1.5'') NegInf = Some \<lparr>integer = Some 0, exponent = 0\<rparr>"
  using New_non_finite [of NegInf "\<lambda>v :: unit. ''1.5''" "\<lparr>integer = Some 42, exponent = - 3\<rparr>"]
  by (simp add: ensureInitialized_def)

end
